theory Spec2Isabelle
  imports Main
begin

section \<open>Text and characters\<close>

text \<open>
  A Python \<open>str\<close> is a sequence of code points. The model reads a \<^typ>\<open>char\<close> as
  the code point of the same number, so a \<^typ>\<open>string\<close> is a text whose code points
  lie in U+0000..U+00FF; texts with code points beyond U+00FF are outside the model.
  On this range \<open>str.lower\<close> works character by character: it moves \<open>A..Z\<close> and the
  Latin-1 capitals U+00C0..U+00DE (except the multiplication sign U+00D7) up by 32.
\<close>

definition code :: "char \<Rightarrow> nat" where
  "code c = of_char c"

definition is_digit :: "char \<Rightarrow> bool" where
  "is_digit c = (48 \<le> code c \<and> code c \<le> 57)"

definition is_space :: "char \<Rightarrow> bool" where
  "is_space c = (code c \<in> {9, 10, 11, 12, 13, 28, 29, 30, 31, 32, 133, 160})"

definition lower_char :: "char \<Rightarrow> char" where
  "lower_char c =
     (if (65 \<le> code c \<and> code c \<le> 90) \<or> (192 \<le> code c \<and> code c \<le> 222 \<and> code c \<noteq> 215)
      then char_of (code c + 32) else c)"

definition upper_char :: "char \<Rightarrow> char" where
  "upper_char c =
     (if (97 \<le> code c \<and> code c \<le> 122) \<or> (224 \<le> code c \<and> code c \<le> 254 \<and> code c \<noteq> 247)
      then char_of (code c - 32) else c)"

definition lower :: "string \<Rightarrow> string" where
  "lower s = map lower_char s"

text \<open>\<open>sep.join(xs)\<close>\<close>

fun join :: "string \<Rightarrow> string list \<Rightarrow> string" where
  "join sep [] = []"
| "join sep [x] = x"
| "join sep (x # y # ys) = x @ sep @ join sep (y # ys)"

text \<open>\<open>s.startswith(p)\<close> and the substring test \<open>p in s\<close>\<close>

fun startswith :: "string \<Rightarrow> string \<Rightarrow> bool" where
  "startswith s [] = True"
| "startswith [] (p # ps) = False"
| "startswith (c # s) (p # ps) = (c = p \<and> startswith s ps)"

fun py_in :: "string \<Rightarrow> string \<Rightarrow> bool" where
  "py_in p [] = (p = [])"
| "py_in p (c # s) = (startswith (c # s) p \<or> py_in p s)"

section \<open>Errors\<close>

text \<open>
  The exceptions of the program, each with its message: \<open>IndexError\<close>,
  \<open>sqlite3.OperationalError\<close>, \<open>pandas.errors.DatabaseError\<close> and any other subclass
  of \<open>Exception\<close>.
\<close>

datatype py_error =
    IndexError
  | OperationalError string
  | DatabaseError string
  | Exception string

text \<open>\<open>xs[i]\<close> for a non-negative index\<close>

fun getitem :: "'a list \<Rightarrow> nat \<Rightarrow> py_error + 'a" where
  "getitem [] i = Inl IndexError"
| "getitem (x # xs) 0 = Inr x"
| "getitem (x # xs) (Suc i) = getitem xs i"

section \<open>The regular expressions of the extractor\<close>

text \<open>
  The fragment of Python's \<open>re\<close> syntax that the three patterns of
  \<open>extract_data_from_text\<close> use. A class item is \<open>\d\<close>, \<open>\s\<close>, a range or one
  character; \<open>+\<close> and \<open>*?\<close> are applied to single-character atoms only, as in the
  patterns.
\<close>

datatype citem = Digit | Space | Range char char | One char

datatype atom = Dot | Class "citem list"

datatype regex =
    Atom atom
  | Lit string
  | Seq regex regex
  | Alt regex regex
  | Opt regex
  | Plus atom
  | StarLazy atom
  | Group nat regex
  | Ahead regex

definition in_range :: "char \<Rightarrow> char \<Rightarrow> char \<Rightarrow> bool" where
  "in_range a b c = (code a \<le> code c \<and> code c \<le> code b)"

text \<open>The flag is \<open>re.IGNORECASE\<close>, set by a leading \<open>(?i)\<close>.\<close>

fun item_match :: "bool \<Rightarrow> citem \<Rightarrow> char \<Rightarrow> bool" where
  "item_match i Digit c = is_digit c"
| "item_match i Space c = is_space c"
| "item_match i (Range a b) c =
     (in_range a b c \<or> (i \<and> (in_range a b (lower_char c) \<or> in_range a b (upper_char c))))"
| "item_match i (One p) c = (if i then lower_char c = lower_char p else c = p)"

fun atom_match :: "bool \<Rightarrow> atom \<Rightarrow> char \<Rightarrow> bool" where
  "atom_match i Dot c = (c \<noteq> CHR 0x0A)"
| "atom_match i (Class items) c = list_ex (\<lambda>it. item_match i it c) items"

fun lit_match :: "bool \<Rightarrow> string \<Rightarrow> string \<Rightarrow> string option" where
  "lit_match i [] s = Some s"
| "lit_match i (p # ps) [] = None"
| "lit_match i (p # ps) (c # s) =
     (if (if i then lower_char c = lower_char p else c = p) then lit_match i ps s else None)"

text \<open>
  The backtracking matcher lists the ways a pattern matches at the start of a string, in
  the order in which the backtracking engine tries them: the head of the list is the match
  the engine reports. A way is the rest of the string after the match and the groups
  captured so far.
\<close>

type_synonym groups = "nat \<rightharpoonup> string"

text \<open>\<open>a+\<close>: the longest run first\<close>

fun plus_greedy :: "(char \<Rightarrow> bool) \<Rightarrow> string \<Rightarrow> string list" where
  "plus_greedy p [] = []"
| "plus_greedy p (c # s) = (if p c then plus_greedy p s @ [s] else [])"

text \<open>\<open>a*?\<close>: the shortest run first\<close>

fun star_lazy :: "(char \<Rightarrow> bool) \<Rightarrow> string \<Rightarrow> string list" where
  "star_lazy p [] = [[]]"
| "star_lazy p (c # s) = (c # s) # (if p c then star_lazy p s else [])"

fun rmatch :: "bool \<Rightarrow> regex \<Rightarrow> string \<times> groups \<Rightarrow> (string \<times> groups) list" where
  "rmatch i (Atom a) (s, g) =
     (case s of [] \<Rightarrow> [] | c # s' \<Rightarrow> if atom_match i a c then [(s', g)] else [])"
| "rmatch i (Lit w) (s, g) = (case lit_match i w s of None \<Rightarrow> [] | Some s' \<Rightarrow> [(s', g)])"
| "rmatch i (Seq a b) st = concat (map (rmatch i b) (rmatch i a st))"
| "rmatch i (Alt a b) st = rmatch i a st @ rmatch i b st"
| "rmatch i (Opt a) st = rmatch i a st @ [st]"
| "rmatch i (Plus a) (s, g) = map (\<lambda>s'. (s', g)) (plus_greedy (atom_match i a) s)"
| "rmatch i (StarLazy a) (s, g) = map (\<lambda>s'. (s', g)) (star_lazy (atom_match i a) s)"
| "rmatch i (Group n a) (s, g) =
     map (\<lambda>(s', g'). (s', g'(n \<mapsto> take (length s - length s') s))) (rmatch i a (s, g))"
| "rmatch i (Ahead a) st = (if rmatch i a st = [] then [] else [st])"

text \<open>\<open>a|b|c\<close>\<close>

fun alts :: "regex \<Rightarrow> regex list \<Rightarrow> regex" where
  "alts r [] = r"
| "alts r (x # xs) = Alt r (alts x xs)"

text \<open>
  The scan of \<open>re.finditer\<close>: the leftmost match, then the leftmost match after its end.
  The counter is the number of characters still covered by the last match. Each match is
  its text and its groups. (After an empty match the scan moves one character on; none of
  the three patterns matches the empty string.)
\<close>

fun scan :: "bool \<Rightarrow> regex \<Rightarrow> nat \<Rightarrow> string \<Rightarrow> (string \<times> groups) list" where
  "scan i r k [] =
     (if k = 0 then (case rmatch i r ([], Map.empty) of [] \<Rightarrow> [] | (s', g) # _ \<Rightarrow> [([], g)])
      else [])"
| "scan i r (Suc k) (c # s) = scan i r k s"
| "scan i r 0 (c # s) =
     (case rmatch i r (c # s, Map.empty) of
        [] \<Rightarrow> scan i r 0 s
      | (s', g) # _ \<Rightarrow>
          (take (length (c # s) - length s') (c # s), g)
            # scan i r (length (c # s) - length s' - 1) s)"

text \<open>A group that took no part in the match reads as the empty string.\<close>

definition group :: "groups \<Rightarrow> nat \<Rightarrow> string" where
  "group g n = (case g n of None \<Rightarrow> [] | Some w \<Rightarrow> w)"

text \<open>\<open>re.findall\<close> of a pattern with one group: the list of the texts of group 1\<close>

definition findall :: "bool \<Rightarrow> regex \<Rightarrow> string \<Rightarrow> string list" where
  "findall i r text = map (\<lambda>(w, g). group g 1) (scan i r 0 text)"

text \<open>\<open>re.findall\<close> of a pattern with \<open>n > 1\<close> groups: the list of the tuples of the groups\<close>

definition findall_groups :: "bool \<Rightarrow> regex \<Rightarrow> nat \<Rightarrow> string \<Rightarrow> string list list" where
  "findall_groups i r n text = map (\<lambda>(w, g). map (group g) [1..<Suc n]) (scan i r 0 text)"

text \<open>
  \<open>list(set(xs))\<close>: the distinct elements, in the order of the hash table. The hash of a
  string changes from one process to the next, so the hash is a parameter; elements of
  equal rank keep the order of their insertion.
\<close>

definition list_of_set :: "(string \<Rightarrow> nat) \<Rightarrow> string list \<Rightarrow> string list" where
  "list_of_set h xs = sort_key h (remdups xs)"

section \<open>Module 2: the extractor\<close>

definition suffix_words :: "string list" where
  "suffix_words = [''Capital'', ''Ventures'', ''Partners'', ''Group'', ''Investments'', ''Fund'', ''Advisors'']"

definition upper_class :: atom where
  "upper_class = Class [Range CHR ''A'' CHR ''Z'']"

definition letter_class :: atom where
  "letter_class = Class [Range CHR ''a'' CHR ''z'', Range CHR ''A'' CHR ''Z'']"

definition amount_class :: atom where
  "amount_class = Class [Digit, One CHR '','', One CHR ''.'']"

text \<open>
  The class \<open>[-to...]\<close> of the ticket pattern holds the hyphen, \<open>t\<close>, \<open>o\<close> and the three
  code points U+00E2, U+20AC, U+201C; the last two are beyond U+00FF.
\<close>

definition range_class :: atom where
  "range_class = Class [One CHR ''-'', One CHR ''t'', One CHR ''o'', One (CHR 0xE2)]"

definition opt_space :: regex where
  "opt_space = Opt (Atom (Class [Space]))"

definition fund_suffix :: regex where
  "fund_suffix =
     alts (Lit ''Capital'') (map Lit [''Ventures'', ''Partners'', ''Group'', ''Investments'',
       ''Fund'', ''Advisors''])"

definition fund_pattern :: regex where
  "fund_pattern =
     Group 1 (Seq (Atom upper_class) (Seq (Plus letter_class) (Seq (Atom (Class [Space]))
       fund_suffix)))"

definition range_part :: regex where
  "range_part =
     Seq opt_space (Seq (Atom range_class) (Seq opt_space
       (Seq (Opt (Lit ''$'')) (Plus amount_class))))"

definition ticket_unit :: regex where
  "ticket_unit =
     Seq opt_space (Group 3 (alts (Lit ''million'') (map Lit [''M'', ''billion'', ''B''])))"

definition ticket_amount :: regex where
  "ticket_amount =
     Group 2 (Seq (Lit ''$'') (Seq (Plus amount_class) (Seq (Opt range_part) (Opt ticket_unit))))"

definition ticket_keywords :: regex where
  "ticket_keywords =
     Seq (Group 1 (alts (Lit ''cheque'') (map Lit [''check'', ''ticket'', ''initial investment'',
            ''typical investment'', ''writes''])))
      (Seq (StarLazy Dot) ticket_amount)"

definition fund_size_pattern :: regex where
  "fund_size_pattern =
     Seq (Lit ''$'') (Seq (Plus amount_class)
       (Seq (Seq opt_space (Group 1 (alts (Lit ''million'') (map Lit [''billion'', ''M'', ''B'']))))
            (Ahead (Seq (StarLazy Dot) (Lit ''fund'')))))"

definition stage_keywords :: "string list" where
  "stage_keywords = [''seed'', ''early-stage'', ''growth-stage'', ''late-stage'', ''Series A'', ''Series B'']"

definition sector_keywords :: "string list" where
  "sector_keywords = [''consumer tech'', ''fintech'', ''edtech'', ''healthtech'', ''sustainability'', ''AI'', ''crypto'']"

definition geography_keywords :: "string list" where
  "geography_keywords = [''India'', ''Southeast Asia'', ''Singapore'', ''Indonesia'', ''Asia'']"

record entry =
  fund :: string
  ticket_size :: "string option"
  fund_size :: "string option"
  sectors :: string
  geographies :: string
  stage :: string
  source :: string
  timestamp :: string

text \<open>\<open>[s for s in keywords if s.lower() in text.lower()]\<close>\<close>

definition keywords_in :: "string list \<Rightarrow> string \<Rightarrow> string list" where
  "keywords_in keywords text = filter (\<lambda>s. py_in (lower s) (lower text)) keywords"

text \<open>\<open>ticket_info[0][1] if ticket_info else None\<close>\<close>

definition ticket_size_of :: "string list list \<Rightarrow> py_error + string option" where
  "ticket_size_of ticket_info =
     (if ticket_info \<noteq> [] then
        (case getitem ticket_info 0 of
           Inl e \<Rightarrow> Inl e
         | Inr t \<Rightarrow> (case getitem t 1 of Inl e \<Rightarrow> Inl e | Inr v \<Rightarrow> Inr (Some v)))
      else Inr None)"

text \<open>\<open>fund_size[0] if fund_size else None\<close>\<close>

definition fund_size_of :: "string list \<Rightarrow> py_error + string option" where
  "fund_size_of found =
     (if found \<noteq> [] then
        (case getitem found 0 of Inl e \<Rightarrow> Inl e | Inr v \<Rightarrow> Inr (Some v))
      else Inr None)"

text \<open>
  The loop over the funds. \<open>now k\<close> is what the \<open>k\<close>-th reading of the clock returns,
  formatted; \<open>extracted\<close> is the list built so far. (The lists \<open>fund_size\<close>,
  \<open>sectors\<close> and \<open>geographies\<close> of the source are \<open>found\<close>, \<open>sects\<close> and \<open>geos\<close>
  here: the record fields have their names.)
\<close>

fun entries_loop ::
  "(nat \<Rightarrow> string) \<Rightarrow> string \<Rightarrow> string list list \<Rightarrow> string list \<Rightarrow> string list \<Rightarrow> string list
     \<Rightarrow> string list \<Rightarrow> string list \<Rightarrow> nat \<Rightarrow> entry list \<Rightarrow> py_error + entry list" where
  "entries_loop now url ticket_info found stages sects geos [] k extracted = Inr extracted"
| "entries_loop now url ticket_info found stages sects geos (f # funds) k extracted =
     (case ticket_size_of ticket_info of
        Inl e \<Rightarrow> Inl e
      | Inr ts \<Rightarrow>
         (case fund_size_of found of
            Inl e \<Rightarrow> Inl e
          | Inr fs \<Rightarrow>
              entries_loop now url ticket_info found stages sects geos funds (Suc k)
                (extracted @
                  [\<lparr>fund = f, ticket_size = ts, fund_size = fs,
                    sectors = join '', '' sects, geographies = join '', '' geos,
                    stage = join '', '' stages, source = url, timestamp = now k\<rparr>])))"

definition extract_data_from_text ::
  "(string \<Rightarrow> nat) \<Rightarrow> (nat \<Rightarrow> string) \<Rightarrow> string \<Rightarrow> string \<Rightarrow> py_error + entry list" where
  "extract_data_from_text h now text url =
     (let funds = list_of_set h (findall False fund_pattern text);
          found = findall False fund_size_pattern text;
          ticket_info = findall_groups True ticket_keywords 3 text;
          stages = keywords_in stage_keywords text;
          sects = keywords_in sector_keywords text;
          geos = keywords_in geography_keywords text
      in entries_loop now url ticket_info found stages sects geos funds 0 [])"

text \<open>
  The shape of a name the fund pattern describes: a capital letter, one or more letters, a
  whitespace character and a word of the suffix vocabulary.
\<close>

definition is_upper :: "char \<Rightarrow> bool" where
  "is_upper c = in_range CHR ''A'' CHR ''Z'' c"

definition is_letter :: "char \<Rightarrow> bool" where
  "is_letter c = (in_range CHR ''a'' CHR ''z'' c \<or> in_range CHR ''A'' CHR ''Z'' c)"

definition capitalized_word :: "string \<Rightarrow> bool" where
  "capitalized_word w =
     (case w of [] \<Rightarrow> False | c # cs \<Rightarrow> is_upper c \<and> cs \<noteq> [] \<and> list_all is_letter cs)"

definition ends_in :: "string \<Rightarrow> string \<Rightarrow> bool" where
  "ends_in x suf =
     (length suf < length x \<and> drop (length x - length suf) x = suf \<and>
      is_space (last (take (length x - length suf) x)) \<and>
      capitalized_word (butlast (take (length x - length suf) x)))"

definition fund_name_form :: "string \<Rightarrow> bool" where
  "fund_name_form x = list_ex (ends_in x) suffix_words"

text \<open>A string of that shape starts at the first character of \<open>s\<close>\<close>

definition fund_at :: "string \<Rightarrow> bool" where
  "fund_at s = list_ex (\<lambda>n. fund_name_form (take n s)) [0..<Suc (length s)]"

text \<open>No string of that shape starts at a character of \<open>pre\<close> in the text \<open>pre @ t\<close>\<close>

definition no_fund_before :: "string \<Rightarrow> string \<Rightarrow> bool" where
  "no_fund_before pre t = list_all (\<lambda>n. \<not> fund_at (drop n pre @ t)) [0..<length pre]"

section \<open>Module 1: the scraper\<close>

text \<open>
  The network and the HTML parser are parameters: \<open>get k u\<close> is the content of the
  response of \<open>requests.get(u, timeout=10)\<close>, or the exception it raises, when it is the
  \<open>k\<close>-th request of the run; \<open>parse c\<close> is the list of the texts of the paragraphs
  \<open>BeautifulSoup(c, 'html.parser').find_all('p')\<close>, or the exception raised.
  An article is the pair of its URL and its text.
\<close>

type_synonym article = "string \<times> string"

fun message :: "py_error \<Rightarrow> string" where
  "message IndexError = ''list index out of range''"
| "message (OperationalError m) = m"
| "message (DatabaseError m) = m"
| "message (Exception m) = m"

text \<open>The body of the \<open>try\<close>\<close>

definition fetch_one ::
  "(nat \<Rightarrow> string \<Rightarrow> py_error + string) \<Rightarrow> (string \<Rightarrow> py_error + string list) \<Rightarrow> nat \<Rightarrow> string
     \<Rightarrow> py_error + article" where
  "fetch_one get parse k u =
     (case get k u of
        Inl e \<Rightarrow> Inl e
      | Inr content \<Rightarrow>
          (case parse content of
             Inl e \<Rightarrow> Inl e
           | Inr paragraphs \<Rightarrow> Inr (u, join '' '' paragraphs)))"

text \<open>
  The loop over the URLs, with the number of requests made, the list of articles and the
  warnings shown so far. The \<open>except Exception\<close> clause turns a failure into a warning.
\<close>

fun fetch_loop ::
  "(nat \<Rightarrow> string \<Rightarrow> py_error + string) \<Rightarrow> (string \<Rightarrow> py_error + string list) \<Rightarrow> string list
     \<Rightarrow> nat \<Rightarrow> article list \<Rightarrow> string list \<Rightarrow> article list \<times> string list" where
  "fetch_loop get parse [] k articles warnings = (articles, warnings)"
| "fetch_loop get parse (u # urls) k articles warnings =
     (case fetch_one get parse k u of
        Inr a \<Rightarrow> fetch_loop get parse urls (Suc k) (articles @ [a]) warnings
      | Inl e \<Rightarrow>
          fetch_loop get parse urls (Suc k) articles
            (warnings @ [''Failed to fetch '' @ u @ '': '' @ message e]))"

definition fetch_articles ::
  "(nat \<Rightarrow> string \<Rightarrow> py_error + string) \<Rightarrow> (string \<Rightarrow> py_error + string list) \<Rightarrow> string list
     \<Rightarrow> article list \<times> string list" where
  "fetch_articles get parse urls = fetch_loop get parse urls 0 [] []"

section \<open>Module 3: the database\<close>

text \<open>
  The file \<open>investors.db\<close> holds the table \<open>investors\<close> or not. The table is its rows in
  the order of insertion and the counter that \<open>AUTOINCREMENT\<close> keeps in
  \<open>sqlite_sequence\<close>: a new row gets an id one larger than the largest id the table has
  ever held. An id is a signed 64-bit integer: once the table has held the largest one,
  an \<open>INSERT\<close> fails with \<open>SQLITE_FULL\<close>, which \<open>sqlite3\<close> raises as
  \<open>OperationalError\<close>.
\<close>

record row =
  row_id :: nat
  data :: entry

record table =
  rows :: "row list"
  seq :: nat

type_synonym database = "table option"

definition init_db :: "database \<Rightarrow> database" where
  "init_db db = (case db of None \<Rightarrow> Some \<lparr>rows = [], seq = 0\<rparr> | Some t \<Rightarrow> Some t)"

definition max_id :: "row list \<Rightarrow> nat" where
  "max_id rs = foldr (\<lambda>r m. max (row_id r) m) rs 0"

text \<open>The largest id the table has ever held\<close>

definition high_water :: "table \<Rightarrow> nat" where
  "high_water t = max (seq t) (max_id (rows t))"

definition max_rowid :: nat where
  "max_rowid = 2 ^ 63 - 1"

definition insert_row :: "table \<Rightarrow> entry \<Rightarrow> py_error + table" where
  "insert_row t e =
     (if max_rowid \<le> high_water t then Inl (OperationalError ''database or disk is full'')
      else (let n = Suc (high_water t)
            in Inr \<lparr>rows = rows t @ [\<lparr>row_id = n, data = e\<rparr>], seq = n\<rparr>))"

text \<open>
  An \<open>INSERT\<close> into a table that does not exist raises \<open>sqlite3.OperationalError\<close> too.
  An exception leaves the loop before \<open>commit\<close>: the result is the exception, and the
  database stays as it was.
\<close>

fun insert_data_to_db :: "entry list \<Rightarrow> database \<Rightarrow> py_error + database" where
  "insert_data_to_db [] db = Inr db"
| "insert_data_to_db (e # entries) db =
     (case db of
        None \<Rightarrow> Inl (OperationalError ''no such table: investors'')
      | Some t \<Rightarrow>
          (case insert_row t e of
             Inl err \<Rightarrow> Inl err
           | Inr t' \<Rightarrow> insert_data_to_db entries (Some t')))"

section \<open>Module 4: filtering and display\<close>

text \<open>\<open>s.split(c)\<close>\<close>

fun split_on :: "char \<Rightarrow> string \<Rightarrow> string list" where
  "split_on c [] = [[]]"
| "split_on c (x # xs) =
     (if x = c then [] # split_on c xs
      else (case split_on c xs of [] \<Rightarrow> [[x]] | w # ws \<Rightarrow> (x # w) # ws))"

text \<open>The characters with a meaning of their own in a pattern, the bar apart\<close>

definition special_chars :: "char list" where
  "special_chars = CHR 0x5C # ''.^$*+?{}[]()''"

text \<open>
  \<open>Series.str.contains(pat)\<close> on one value: a search for the regular expression \<open>pat\<close>.
  A pattern without special characters is an alternation of literal strings, found when
  one of them is a substring of the value. For any other pattern the result is the one of
  the library's search, a parameter (it may raise \<open>re.error\<close>).
\<close>

definition str_contains ::
  "(string \<Rightarrow> string \<Rightarrow> py_error + bool) \<Rightarrow> string \<Rightarrow> string \<Rightarrow> py_error + bool" where
  "str_contains re_search pat v =
     (if list_all (\<lambda>c. c \<notin> set special_chars) pat
      then Inr (list_ex (\<lambda>a. py_in a v) (split_on CHR ''|'' pat))
      else re_search pat v)"

text \<open>Filter values that are plain text: no special character and no bar\<close>

definition plain_values :: "string list \<Rightarrow> bool" where
  "plain_values vs = list_all (list_all (\<lambda>c. c \<notin> set special_chars \<and> c \<noteq> CHR ''|'')) vs"

text \<open>\<open>df[df[col].str.contains(pat)]\<close>\<close>

fun select_rows ::
  "(string \<Rightarrow> string \<Rightarrow> py_error + bool) \<Rightarrow> string \<Rightarrow> (entry \<Rightarrow> string) \<Rightarrow> row list
     \<Rightarrow> py_error + row list" where
  "select_rows re_search pat col [] = Inr []"
| "select_rows re_search pat col (r # df) =
     (case str_contains re_search pat (col (data r)) of
        Inl e \<Rightarrow> Inl e
      | Inr b \<Rightarrow>
          (case select_rows re_search pat col df of
             Inl e \<Rightarrow> Inl e
           | Inr df' \<Rightarrow> Inr (if b then r # df' else df')))"

text \<open>
  Lines 105 to 119 of \<open>streamlit_ui\<close>: read the table, apply the two filters the user
  selected, rewrite the source as a link and show the rows without their id. The result
  is what is shown (or the exception raised) and the database afterwards. Without the
  table \<open>pandas.read_sql_query\<close> raises \<open>pandas.errors.DatabaseError\<close>.
\<close>

definition show_investors ::
  "(string \<Rightarrow> string \<Rightarrow> py_error + bool) \<Rightarrow> database \<Rightarrow> string list \<Rightarrow> string list
     \<Rightarrow> (py_error + entry list) \<times> database" where
  "show_investors re_search db sector_filter geo_filter =
     (case db of
        None \<Rightarrow>
          (Inl (DatabaseError (''Execution failed on sql '' @ [CHR 0x27] @ ''SELECT * FROM investors''
                  @ [CHR 0x27] @ '': no such table: investors'')), db)
      | Some t \<Rightarrow>
          (case (if sector_filter \<noteq> []
                 then select_rows re_search (join ''|'' sector_filter) sectors (rows t)
                 else Inr (rows t)) of
             Inl e \<Rightarrow> (Inl e, db)
           | Inr df1 \<Rightarrow>
               (case (if geo_filter \<noteq> []
                      then select_rows re_search (join ''|'' geo_filter) geographies df1
                      else Inr df1) of
                  Inl e \<Rightarrow> (Inl e, db)
                | Inr df2 \<Rightarrow>
                    (Inr (map (\<lambda>r. (data r)\<lparr>source := ''[Link]('' @ source (data r) @ '')''\<rparr>) df2),
                     db))))"

section \<open>Properties of the extractor\<close>

lemma fund_size_of_eq:
  "fund_size_of xs = Inr (case xs of [] \<Rightarrow> None | x # _ \<Rightarrow> Some x)"
  by (cases xs) (simp_all add: fund_size_of_def)

lemma getitem_nth: "n < length xs \<Longrightarrow> getitem xs n = Inr (xs ! n)"
  by (induction xs n rule: getitem.induct) simp_all

lemma findall_groups_length:
  "t \<in> set (findall_groups i r n text) \<Longrightarrow> length t = n"
  by (auto simp: findall_groups_def)

lemma ticket_size_of_eq:
  "ticket_size_of (findall_groups i r 3 text) =
     Inr (case findall_groups i r 3 text of [] \<Rightarrow> None | t # _ \<Rightarrow> Some (t ! 1))"
proof (cases "findall_groups i r 3 text")
  case Nil
  then show ?thesis by (simp add: ticket_size_of_def)
next
  case (Cons t ts)
  then have "length t = 3" using findall_groups_length [of t i r 3 "text"] by simp
  then have "getitem t 1 = Inr (t ! 1)" by (simp add: getitem_nth)
  with Cons show ?thesis by (simp add: ticket_size_of_def)
qed

lemma entries_loop_eq:
  assumes "ticket_size_of ti = Inr ts" and "fund_size_of fo = Inr fs"
  shows "entries_loop now u ti fo st se ge funds k acc =
     Inr (acc @ map (\<lambda>(j, f). \<lparr>fund = f, ticket_size = ts, fund_size = fs,
                    sectors = join '', '' se, geographies = join '', '' ge,
                    stage = join '', '' st, source = u, timestamp = now j\<rparr>)
                 (zip [k..<k + length funds] funds))"
proof (induction funds arbitrary: k acc)
  case Nil
  then show ?case by simp
next
  case (Cons f funds)
  have "[k..<k + length (f # funds)] = k # [Suc k..<Suc k + length funds]"
    by (subst upt_rec) simp
  with Cons.IH [of "Suc k"] assms show ?case by simp
qed

lemma extract_eq:
  "extract_data_from_text h now text u =
     Inr (map (\<lambda>(j, f). \<lparr>fund = f,
            ticket_size = (case findall_groups True ticket_keywords 3 text of [] \<Rightarrow> None | t # _ \<Rightarrow> Some (t ! 1)),
            fund_size = (case findall False fund_size_pattern text of [] \<Rightarrow> None | x # _ \<Rightarrow> Some x),
            sectors = join '', '' (keywords_in sector_keywords text),
            geographies = join '', '' (keywords_in geography_keywords text),
            stage = join '', '' (keywords_in stage_keywords text),
            source = u, timestamp = now j\<rparr>)
          (zip [0..<length (list_of_set h (findall False fund_pattern text))]
               (list_of_set h (findall False fund_pattern text))))"
  unfolding extract_data_from_text_def Let_def
  using entries_loop_eq [OF ticket_size_of_eq fund_size_of_eq, where k = 0 and acc = "[]"]
  by simp

lemma list_of_set_props:
  "set (list_of_set h xs) = set xs" "distinct (list_of_set h xs)"
  "length (list_of_set h xs) = card (set xs)"
  by (simp_all add: list_of_set_def length_remdups_card_conv)


lemma list_of_set_Nil: "list_of_set h [] = []"
  by (simp add: list_of_set_def)

lemma example_two_funds:
  "extract_data_from_text (\<lambda>_. 0) (\<lambda>_. ''2026-01-01 00:00:00'')
     ''Accel Partners and Sequoia Capital met Accel Partners'' ''u'' =
   Inr [\<lparr>fund = ''Sequoia Capital'', ticket_size = None, fund_size = None, sectors = [],
          geographies = [], stage = [], source = ''u'', timestamp = ''2026-01-01 00:00:00''\<rparr>,
        \<lparr>fund = ''Accel Partners'', ticket_size = None, fund_size = None, sectors = [],
          geographies = [], stage = [], source = ''u'', timestamp = ''2026-01-01 00:00:00''\<rparr>]"
  by code_simp

lemma example_two_funds_matches:
  "findall False fund_pattern ''Accel Partners and Sequoia Capital met Accel Partners'' =
     [''Accel Partners'', ''Sequoia Capital'', ''Accel Partners'']"
  by code_simp

lemma example_no_fund:
  "findall False fund_pattern ''seed fintech in India'' = []"
  by code_simp

text \<open>
  Claim C1. For every text and source URL the extractor returns exactly as many records
  as there are distinct matches of the fund pattern; all of them carry the same ticket
  size, fund size, sectors, geographies and stage; with no match of the fund pattern the
  result is empty.
\<close>

theorem extract_one_record_per_fund:
  "\<exists>rs. extract_data_from_text h now text u = Inr rs \<and>
     length rs = card (set (findall False fund_pattern text)) \<and>
     (\<forall>r \<in> set rs. \<forall>r' \<in> set rs.
        ticket_size r = ticket_size r' \<and> fund_size r = fund_size r' \<and>
        sectors r = sectors r' \<and> geographies r = geographies r' \<and> stage r = stage r') \<and>
     (findall False fund_pattern text = [] \<longrightarrow> rs = [])"
  unfolding extract_eq by (auto simp: list_of_set_props list_of_set_Nil in_set_zip)

theorem extract_one_record_per_fund_witness:
  "(\<exists>rs. extract_data_from_text (\<lambda>_. 0) (\<lambda>_. ''2026-01-01 00:00:00'')
       ''Accel Partners and Sequoia Capital met Accel Partners'' ''u'' = Inr rs \<and>
       length rs = 2 \<and> rs \<noteq> []) \<and>
   findall False fund_pattern ''seed fintech in India'' = [] \<and>
   extract_data_from_text (\<lambda>_. 0) (\<lambda>_. ''2026-01-01 00:00:00'') ''seed fintech in India'' ''u''
     = Inr []"
proof -
  have c: "card (set [''Accel Partners'', ''Sequoia Capital'', ''Accel Partners'']) = 2"
    unfolding card_set by simp
  from extract_one_record_per_fund [of "\<lambda>_. 0" "\<lambda>_. ''2026-01-01 00:00:00''"
      "''Accel Partners and Sequoia Capital met Accel Partners''" "''u''"]
  have 1: "\<exists>rs. extract_data_from_text (\<lambda>_. 0) (\<lambda>_. ''2026-01-01 00:00:00'')
       ''Accel Partners and Sequoia Capital met Accel Partners'' ''u'' = Inr rs \<and>
       length rs = 2 \<and> rs \<noteq> []"
    unfolding example_two_funds_matches c by auto
  from extract_one_record_per_fund [of "\<lambda>_. 0" "\<lambda>_. ''2026-01-01 00:00:00''"
      "''seed fintech in India''" "''u''"]
  have 2: "extract_data_from_text (\<lambda>_. 0) (\<lambda>_. ''2026-01-01 00:00:00'') ''seed fintech in India'' ''u''
     = Inr []"
    unfolding example_no_fund by auto
  from 1 2 example_no_fund show ?thesis by blast
qed

text \<open>
  Claim C6. The extractor returns a list of records for every text and URL and never
  raises: where the ticket pattern or the fund-size pattern has no match the field is
  \<open>None\<close>, and where no keyword of a vocabulary occurs the field is the empty string.
\<close>

theorem extract_never_raises:
  "\<exists>rs. extract_data_from_text h now text u = Inr rs \<and>
     (findall_groups True ticket_keywords 3 text = [] \<longrightarrow> (\<forall>r \<in> set rs. ticket_size r = None)) \<and>
     (findall False fund_size_pattern text = [] \<longrightarrow> (\<forall>r \<in> set rs. fund_size r = None)) \<and>
     (keywords_in sector_keywords text = [] \<longrightarrow> (\<forall>r \<in> set rs. sectors r = [])) \<and>
     (keywords_in geography_keywords text = [] \<longrightarrow> (\<forall>r \<in> set rs. geographies r = [])) \<and>
     (keywords_in stage_keywords text = [] \<longrightarrow> (\<forall>r \<in> set rs. stage r = []))"
  unfolding extract_eq by (auto simp: in_set_zip)

lemma example_two_funds_no_findings:
  "findall_groups True ticket_keywords 3 ''Accel Partners and Sequoia Capital met Accel Partners'' = []"
  "findall False fund_size_pattern ''Accel Partners and Sequoia Capital met Accel Partners'' = []"
  "keywords_in sector_keywords ''Accel Partners and Sequoia Capital met Accel Partners'' = []"
  "keywords_in geography_keywords ''Accel Partners and Sequoia Capital met Accel Partners'' = []"
  "keywords_in stage_keywords ''Accel Partners and Sequoia Capital met Accel Partners'' = []"
  by code_simp+

theorem extract_never_raises_witness:
  "findall_groups True ticket_keywords 3 ''Accel Partners and Sequoia Capital met Accel Partners'' = [] \<and>
   findall False fund_size_pattern ''Accel Partners and Sequoia Capital met Accel Partners'' = [] \<and>
   keywords_in sector_keywords ''Accel Partners and Sequoia Capital met Accel Partners'' = [] \<and>
   keywords_in geography_keywords ''Accel Partners and Sequoia Capital met Accel Partners'' = [] \<and>
   keywords_in stage_keywords ''Accel Partners and Sequoia Capital met Accel Partners'' = [] \<and>
   (\<exists>rs. extract_data_from_text (\<lambda>_. 0) (\<lambda>_. ''2026-01-01 00:00:00'')
       ''Accel Partners and Sequoia Capital met Accel Partners'' ''u'' = Inr rs \<and> rs \<noteq> [] \<and>
       (\<forall>r \<in> set rs. ticket_size r = None \<and> fund_size r = None \<and> sectors r = [] \<and>
          geographies r = [] \<and> stage r = []))"
  using extract_never_raises [of "\<lambda>_. 0" "\<lambda>_. ''2026-01-01 00:00:00''"
      "''Accel Partners and Sequoia Capital met Accel Partners''" "''u''"]
  unfolding example_two_funds_no_findings example_two_funds by simp

subsection \<open>Keywords\<close>

lemma startswith_iff: "startswith s p \<longleftrightarrow> (\<exists>post. s = p @ post)"
  by (induction s p rule: startswith.induct) auto

lemma py_in_iff: "py_in p s \<longleftrightarrow> (\<exists>pre post. s = pre @ p @ post)"
proof (induction s)
  case Nil
  then show ?case by auto
next
  case (Cons c s)
  have "(\<exists>pre post. c # s = pre @ p @ post) \<longleftrightarrow>
        (\<exists>post. c # s = p @ post) \<or> (\<exists>pre post. s = pre @ p @ post)"
  proof
    assume "\<exists>pre post. c # s = pre @ p @ post"
    then obtain pre post where e: "c # s = pre @ p @ post" by blast
    show "(\<exists>post. c # s = p @ post) \<or> (\<exists>pre post. s = pre @ p @ post)"
    proof (cases pre)
      case Nil
      with e show ?thesis by auto
    next
      case (Cons a pre')
      with e have "s = pre' @ p @ post" by simp
      then show ?thesis by blast
    qed
  next
    assume "(\<exists>post. c # s = p @ post) \<or> (\<exists>pre post. s = pre @ p @ post)"
    then show "\<exists>pre post. c # s = pre @ p @ post"
    proof
      assume "\<exists>post. c # s = p @ post"
      then obtain post where "c # s = [] @ p @ post" by auto
      then show ?thesis by blast
    next
      assume "\<exists>pre post. s = pre @ p @ post"
      then obtain pre post where "c # s = (c # pre) @ p @ post" by auto
      then show ?thesis by blast
    qed
  qed
  with Cons show ?case by (simp add: startswith_iff)
qed

text \<open>
  Claim C5. In every record the stage, sectors and geographies fields are the joins,
  with a comma and a space and in the order of the vocabulary, of exactly those keywords
  of the stage, sector and geography vocabularies whose lowercase form is a substring of
  the lowercased text; so they are the same for every fund of the article.
\<close>

theorem keywords_by_substring:
  "\<exists>rs. extract_data_from_text h now text u = Inr rs \<and>
     (\<forall>r \<in> set rs.
        stage r = join '', '' (filter (\<lambda>k. \<exists>pre post. lower text = pre @ lower k @ post) stage_keywords) \<and>
        sectors r = join '', '' (filter (\<lambda>k. \<exists>pre post. lower text = pre @ lower k @ post) sector_keywords) \<and>
        geographies r = join '', '' (filter (\<lambda>k. \<exists>pre post. lower text = pre @ lower k @ post) geography_keywords))"
  unfolding extract_eq keywords_in_def py_in_iff by (auto simp: in_set_zip)

lemma example_keywords:
  "extract_data_from_text (\<lambda>_. 0) (\<lambda>_. ''2026-01-01 00:00:00'')
     ''Accel Partners backs Series A edtech and CRYPTO in Southeast Asia'' ''u'' =
   Inr [\<lparr>fund = ''Accel Partners'', ticket_size = None, fund_size = None,
          sectors = ''edtech, crypto'', geographies = ''Southeast Asia, Asia'', stage = ''Series A'',
          source = ''u'', timestamp = ''2026-01-01 00:00:00''\<rparr>]"
  by code_simp

theorem keywords_by_substring_witness:
  "\<exists>rs. extract_data_from_text (\<lambda>_. 0) (\<lambda>_. ''2026-01-01 00:00:00'')
     ''Accel Partners backs Series A edtech and CRYPTO in Southeast Asia'' ''u'' = Inr rs \<and>
     rs \<noteq> [] \<and>
     (\<forall>r \<in> set rs.
        ''Series A'' = join '', '' (filter (\<lambda>k. \<exists>pre post.
            lower ''Accel Partners backs Series A edtech and CRYPTO in Southeast Asia'' = pre @ lower k @ post) stage_keywords) \<and>
        sectors r = ''edtech, crypto'' \<and> geographies r = ''Southeast Asia, Asia'')"
  using keywords_by_substring [of "\<lambda>_. 0" "\<lambda>_. ''2026-01-01 00:00:00''"
     "''Accel Partners backs Series A edtech and CRYPTO in Southeast Asia''" "''u''"]
  unfolding example_keywords by auto

lemma py_in_join: "x \<in> set xs \<Longrightarrow> py_in x (join sep xs)"
proof (induction sep xs rule: join.induct)
  case (1 sep)
  then show ?case by simp
next
  case (2 sep y)
  then have "y = [] @ x @ []" by simp
  then show ?case unfolding py_in_iff join.simps by blast
next
  case (3 sep y z zs)
  show ?case
  proof (cases "x = y")
    case True
    then have "join sep (y # z # zs) = [] @ x @ (sep @ join sep (z # zs))" by simp
    then show ?thesis unfolding py_in_iff by blast
  next
    case False
    with 3 have "py_in x (join sep (z # zs))" by simp
    then obtain pre post where "join sep (z # zs) = pre @ x @ post"
      unfolding py_in_iff by blast
    then have "join sep (y # z # zs) = (y @ sep @ pre) @ x @ post" by simp
    then show ?thesis unfolding py_in_iff by blast
  qed
qed

lemma lower_append: "lower (a @ b) = lower a @ lower b"
  by (simp add: lower_def)

lemma lower_words: "lower ''AI'' = ''ai''" "lower ''said'' = ''said''" "lower ''Thailand'' = ''thailand''"
  by code_simp+

lemma ai_in_lower:
  assumes "py_in ''said'' text \<or> py_in ''Thailand'' text"
  shows "py_in (lower ''AI'') (lower text)"
proof -
  from assms consider pre post where "text = pre @ ''said'' @ post"
    | pre post where "text = pre @ ''Thailand'' @ post"
    unfolding py_in_iff by blast
  then show ?thesis
  proof cases
    case 1
    have "lower text = lower pre @ lower ''said'' @ lower post"
      unfolding 1 lower_append by (rule refl)
    then have "lower text = (lower pre @ ''s'') @ ''ai'' @ (''d'' @ lower post)"
      unfolding lower_words by simp
    then show ?thesis unfolding py_in_iff lower_words by blast
  next
    case 2
    have "lower text = lower pre @ lower ''Thailand'' @ lower post"
      unfolding 2 lower_append by (rule refl)
    then have "lower text = (lower pre @ ''th'') @ ''ai'' @ (''land'' @ lower post)"
      unfolding lower_words by simp
    then show ?thesis unfolding py_in_iff lower_words by blast
  qed
qed

text \<open>
  Claim C10, as amended. A text that contains \<open>said\<close> or \<open>Thailand\<close> mentions no sector,
  yet every record extracted from it (one for each distinct fund name) has \<open>AI\<close> in its
  sectors field, for the letters \<open>ai\<close> inside the word.
\<close>

theorem said_is_tagged_ai:
  "py_in ''said'' text \<or> py_in ''Thailand'' text \<Longrightarrow>
   \<exists>rs. extract_data_from_text h now text u = Inr rs \<and>
     length rs = card (set (findall False fund_pattern text)) \<and>
     (\<forall>r \<in> set rs. py_in ''AI'' (sectors r))"
proof -
  assume "py_in ''said'' text \<or> py_in ''Thailand'' text"
  then have "''AI'' \<in> set (keywords_in sector_keywords text)"
    using ai_in_lower by (simp add: keywords_in_def sector_keywords_def)
  then have "py_in ''AI'' (join '', '' (keywords_in sector_keywords text))"
    by (rule py_in_join)
  then show ?thesis
    unfolding extract_eq by (auto simp: in_set_zip list_of_set_props)
qed


lemma example_said: "py_in ''said'' ''Accel Partners said so''"
  by code_simp

lemma example_said_matches: "findall False fund_pattern ''Accel Partners said so'' = [''Accel Partners'']"
  by code_simp

theorem said_is_tagged_ai_witness:
  "py_in ''said'' ''Accel Partners said so'' \<and>
   (\<exists>rs. extract_data_from_text (\<lambda>_. 0) (\<lambda>_. ''2026-01-01 00:00:00'') ''Accel Partners said so'' ''u''
       = Inr rs \<and> length rs = 1 \<and> py_in ''AI'' (sectors (hd rs)))"
proof -
  from said_is_tagged_ai [of "''Accel Partners said so''" "\<lambda>_. 0" "\<lambda>_. ''2026-01-01 00:00:00''" "''u''"]
    example_said
  obtain rs where rs: "extract_data_from_text (\<lambda>_. 0) (\<lambda>_. ''2026-01-01 00:00:00'') ''Accel Partners said so'' ''u''
       = Inr rs" "length rs = 1" "\<forall>r \<in> set rs. py_in ''AI'' (sectors r)"
    unfolding example_said_matches by auto
  then have "hd rs \<in> set rs" by (cases rs) auto
  with rs example_said show ?thesis by blast
qed

text \<open>
  Claim C10 as stated fails: the record extracted from a text that mentions Thailand has
  the sector \<open>AI\<close> and no geography at all, for \<open>thailand\<close> does not contain \<open>asia\<close>.
\<close>

theorem thailand_not_tagged_asia:
  "extract_data_from_text (\<lambda>_. 0) (\<lambda>_. ''2026-01-01 00:00:00'')
     ''Sequoia Capital opens in Thailand'' ''u'' =
   Inr [\<lparr>fund = ''Sequoia Capital'', ticket_size = None, fund_size = None, sectors = ''AI'',
          geographies = [], stage = [], source = ''u'', timestamp = ''2026-01-01 00:00:00''\<rparr>]"
  by code_simp

text \<open>
  Claim C2. On a text with a fund of 500 million dollars the fund size of the record is
  the word \<open>million\<close>, the text of the only group of the pattern, and not the amount:
  \<open>re.findall\<close> returns the group of a pattern that has one.
\<close>

theorem fund_size_is_suffix_word:
  "extract_data_from_text (\<lambda>_. 0) (\<lambda>_. ''2026-01-01 00:00:00'')
     ''Sequoia Capital closed a $500 million fund'' ''u'' =
   Inr [\<lparr>fund = ''Sequoia Capital'', ticket_size = None, fund_size = Some ''million'', sectors = [],
          geographies = [], stage = [], source = ''u'', timestamp = ''2026-01-01 00:00:00''\<rparr>]"
  by code_simp

text \<open>
  Claim C3. On the example text of the specification the extractor returns one record
  with the stage, sector and geography of the example, but its ticket size is the first
  amount alone: the class \<open>[-to...]\<close> stands for one character, so the range written
  with the word \<open>to\<close> is not matched.
\<close>

theorem ticket_size_stops_at_to:
  "extract_data_from_text (\<lambda>_. 0) (\<lambda>_. ''2026-01-01 00:00:00'')
     ''Sequoia Capital writes cheques of $500,000 to $1 million in seed fintech startups in India'' ''u'' =
   Inr [\<lparr>fund = ''Sequoia Capital'', ticket_size = Some ''$500,000'', fund_size = None,
          sectors = ''fintech'', geographies = ''India'', stage = ''seed'', source = ''u'',
          timestamp = ''2026-01-01 00:00:00''\<rparr>]"
  by code_simp

subsection \<open>Fund names\<close>

lemma lit_match_False_iff: "lit_match False w s = Some s' \<longleftrightarrow> s = w @ s'"
  by (induction False w s rule: lit_match.induct) auto

lemma plus_greedy_iff:
  "s' \<in> set (plus_greedy p s) \<longleftrightarrow> (\<exists>w. w \<noteq> [] \<and> list_all p w \<and> s = w @ s')"
proof (induction s)
  case Nil
  then show ?case by simp
next
  case (Cons c s)
  show ?case
  proof (cases "p c")
    case False
    then show ?thesis by (auto simp: Cons_eq_append_conv)
  next
    case True
    have "(\<exists>w. w \<noteq> [] \<and> list_all p w \<and> c # s = w @ s') \<longleftrightarrow>
          s' = s \<or> (\<exists>w. w \<noteq> [] \<and> list_all p w \<and> s = w @ s')"
    proof
      assume "\<exists>w. w \<noteq> [] \<and> list_all p w \<and> c # s = w @ s'"
      then obtain w where w: "w \<noteq> []" "list_all p w" "c # s = w @ s'" by blast
      then obtain w' where w': "w = c # w'" "s = w' @ s'" by (cases w) auto
      show "s' = s \<or> (\<exists>w. w \<noteq> [] \<and> list_all p w \<and> s = w @ s')"
      proof (cases "w' = []")
        case True
        with w' show ?thesis by simp
      next
        case False
        with w w' show ?thesis by auto
      qed
    next
      assume "s' = s \<or> (\<exists>w. w \<noteq> [] \<and> list_all p w \<and> s = w @ s')"
      then show "\<exists>w. w \<noteq> [] \<and> list_all p w \<and> c # s = w @ s'"
      proof
        assume "s' = s"
        with True have "[c] \<noteq> [] \<and> list_all p [c] \<and> c # s = [c] @ s'" by simp
        then show ?thesis by blast
      next
        assume "\<exists>w. w \<noteq> [] \<and> list_all p w \<and> s = w @ s'"
        then obtain w where "list_all p w" "s = w @ s'" by blast
        with True have "c # w \<noteq> [] \<and> list_all p (c # w) \<and> c # s = (c # w) @ s'" by simp
        then show ?thesis by blast
      qed
    qed
    with True Cons show ?thesis by auto
  qed
qed

lemma rmatch_Lit_iff:
  "(s', g') \<in> set (rmatch False (Lit w) (s, g)) \<longleftrightarrow> s = w @ s' \<and> g' = g"
proof (cases "lit_match False w s")
  case None
  then have "\<And>t. s \<noteq> w @ t" using lit_match_False_iff [of w s] by auto
  with None show ?thesis by simp
next
  case (Some t)
  then have "s = w @ t" using lit_match_False_iff [of w s t] by simp
  with Some show ?thesis by auto
qed

lemma rmatch_Seq_iff:
  "m' \<in> set (rmatch i (Seq a b) m) \<longleftrightarrow> (\<exists>x \<in> set (rmatch i a m). m' \<in> set (rmatch i b x))"
  by simp

lemma rmatch_Alt_iff:
  "m' \<in> set (rmatch i (Alt a b) m) \<longleftrightarrow> m' \<in> set (rmatch i a m) \<or> m' \<in> set (rmatch i b m)"
  by simp

lemma rmatch_Atom_iff:
  "(s', g') \<in> set (rmatch i (Atom a) (s, g)) \<longleftrightarrow> (\<exists>c. s = c # s' \<and> atom_match i a c) \<and> g' = g"
  by (cases s) auto

lemma rmatch_Plus_iff:
  "(s', g') \<in> set (rmatch i (Plus a) (s, g)) \<longleftrightarrow>
     (\<exists>w. w \<noteq> [] \<and> list_all (atom_match i a) w \<and> s = w @ s') \<and> g' = g"
  by (auto simp: plus_greedy_iff)

lemma rmatch_Group_iff:
  "(s', g') \<in> set (rmatch i (Group n a) (s, g)) \<longleftrightarrow>
     (\<exists>g0. (s', g0) \<in> set (rmatch i a (s, g)) \<and> g' = g0(n \<mapsto> take (length s - length s') s))"
  by force

lemma rmatch_alts_Lit:
  "(s', g') \<in> set (rmatch False (alts (Lit w) (map Lit ws)) (s, g)) \<longleftrightarrow>
     (\<exists>suf \<in> set (w # ws). s = suf @ s') \<and> g' = g"
proof (induction ws arbitrary: w)
  case Nil
  then show ?case by (simp add: rmatch_Lit_iff del: rmatch.simps)
next
  case (Cons x xs)
  have "alts (Lit w) (map Lit (x # xs)) = Alt (Lit w) (alts (Lit x) (map Lit xs))" by simp
  then show ?case
    unfolding rmatch_Alt_iff using Cons [of x]
    by (auto simp add: rmatch_Lit_iff rmatch_Alt_iff simp del: rmatch.simps)
qed

lemma suffix_match_iff:
  "(s', g') \<in> set (rmatch False fund_suffix (s, g)) \<longleftrightarrow>
   (\<exists>suf \<in> set suffix_words. s = suf @ s') \<and> g' = g"
  unfolding fund_suffix_def suffix_words_def by (rule rmatch_alts_Lit)

lemma atom_upper: "atom_match False upper_class c = is_upper c"
  by (simp add: upper_class_def is_upper_def)

lemma atom_letter: "atom_match False letter_class = is_letter"
  by (rule ext) (simp add: letter_class_def is_letter_def)

lemma atom_space: "atom_match i (Class [Space]) c = is_space c"
  by simp

lemma fund_match_iff:
  "(s', g') \<in> set (rmatch False fund_pattern (s, g)) \<longleftrightarrow>
   (\<exists>c w sp suf. s = c # w @ sp # suf @ s' \<and> is_upper c \<and> w \<noteq> [] \<and> list_all is_letter w \<and>
      is_space sp \<and> suf \<in> set suffix_words \<and> g' = g(1 \<mapsto> c # w @ sp # suf))"
  (is "?L \<longleftrightarrow> ?R")
proof
  assume ?L
  then obtain g0 where g0: "g' = g0(1 \<mapsto> take (length s - length s') s)"
    and m: "(s', g0) \<in> set (rmatch False (Seq (Atom upper_class) (Seq (Plus letter_class)
        (Seq (Atom (Class [Space])) fund_suffix))) (s, g))"
    unfolding fund_pattern_def rmatch_Group_iff by blast
  from m obtain m1 m2 m3 where a1: "m1 \<in> set (rmatch False (Atom upper_class) (s, g))"
    and a2: "m2 \<in> set (rmatch False (Plus letter_class) m1)"
    and a3: "m3 \<in> set (rmatch False (Atom (Class [Space])) m2)"
    and a4: "(s', g0) \<in> set (rmatch False fund_suffix m3)"
    unfolding rmatch_Seq_iff by blast
  obtain s1 g1 where m1: "m1 = (s1, g1)" by (cases m1)
  obtain s2 g2 where m2: "m2 = (s2, g2)" by (cases m2)
  obtain s3 g3 where m3: "m3 = (s3, g3)" by (cases m3)
  from a1 obtain c where c: "s = c # s1" "is_upper c" "g1 = g"
    unfolding m1 rmatch_Atom_iff atom_upper by blast
  from a2 obtain w where w: "s1 = w @ s2" "w \<noteq> []" "list_all is_letter w" "g2 = g1"
    unfolding m1 m2 rmatch_Plus_iff atom_letter by blast
  from a3 obtain sp where sp: "s2 = sp # s3" "is_space sp" "g3 = g2"
    unfolding m2 m3 rmatch_Atom_iff atom_space by blast
  from a4 obtain suf where suf: "suf \<in> set suffix_words" "s3 = suf @ s'" "g0 = g3"
    unfolding m3 suffix_match_iff by blast
  have e: "s = c # w @ sp # suf @ s'" using c w sp suf by simp
  then have "take (length s - length s') s = c # w @ sp # suf" by simp
  with g0 suf(3) sp(3) w(4) c(3) have g': "g' = g(1 \<mapsto> c # w @ sp # suf)" by simp
  from e c(2) w(2,3) sp(2) suf(1) g' show ?R by blast
next
  assume ?R
  then obtain c w sp suf where h: "s = c # w @ sp # suf @ s'" "is_upper c" "w \<noteq> []"
    "list_all is_letter w" "is_space sp" "suf \<in> set suffix_words" "g' = g(1 \<mapsto> c # w @ sp # suf)"
    by blast
  have a1: "(w @ sp # suf @ s', g) \<in> set (rmatch False (Atom upper_class) (s, g))"
    unfolding rmatch_Atom_iff atom_upper using h by blast
  have a2: "(sp # suf @ s', g) \<in> set (rmatch False (Plus letter_class) (w @ sp # suf @ s', g))"
    unfolding rmatch_Plus_iff atom_letter using h by blast
  have a3: "(suf @ s', g) \<in> set (rmatch False (Atom (Class [Space])) (sp # suf @ s', g))"
    unfolding rmatch_Atom_iff atom_space using h by blast
  have a4: "(s', g) \<in> set (rmatch False fund_suffix (suf @ s', g))"
    unfolding suffix_match_iff using h by blast
  have m: "(s', g) \<in> set (rmatch False (Seq (Atom upper_class) (Seq (Plus letter_class)
        (Seq (Atom (Class [Space])) fund_suffix))) (s, g))"
    unfolding rmatch_Seq_iff using a1 a2 a3 a4 by blast
  have t: "take (length s - length s') s = c # w @ sp # suf" using h by simp
  show ?L unfolding fund_pattern_def rmatch_Group_iff t
    using m h by blast
qed

lemma scan_sound:
  "(w, g) \<in> set (scan i r k s) \<Longrightarrow>
   \<exists>pre t s' rest. s = pre @ t \<and> rmatch i r (t, Map.empty) = (s', g) # rest \<and>
      w = take (length t - length s') t"
proof (induction i r k s rule: scan.induct)
  case (1 i r k)
  have k: "k = 0"
  proof (rule ccontr)
    assume "k \<noteq> 0"
    with 1 show False by simp
  qed
  show ?case
  proof (cases "rmatch i r ([], Map.empty)")
    case Nil
    with 1 k show ?thesis by simp
  next
    case (Cons m rest)
    obtain s0 g0 where m: "m = (s0, g0)" by (cases m)
    from 1 k Cons m have "w = []" "g = g0" by simp_all
    with Cons m have "([] :: string) = [] @ [] \<and> rmatch i r ([], Map.empty) = (s0, g) # rest \<and>
      w = take (length ([] :: string) - length s0) []" by simp
    then show ?thesis by - (rule exI, rule exI, rule exI, rule exI)
  qed
next
  case (2 i r k c s)
  then obtain pre t s' rest where "s = pre @ t" "rmatch i r (t, Map.empty) = (s', g) # rest"
      "w = take (length t - length s') t" by auto
  then have "c # s = (c # pre) @ t \<and> rmatch i r (t, Map.empty) = (s', g) # rest \<and>
      w = take (length t - length s') t" by simp
  then show ?case by blast
next
  case (3 i r c s)
  show ?case
  proof (cases "rmatch i r (c # s, Map.empty)")
    case Nil
    with 3 obtain pre t s' rest where "s = pre @ t" "rmatch i r (t, Map.empty) = (s', g) # rest"
      "w = take (length t - length s') t" by auto
    then have "c # s = (c # pre) @ t \<and> rmatch i r (t, Map.empty) = (s', g) # rest \<and>
      w = take (length t - length s') t" by simp
    then show ?thesis by blast
  next
    case (Cons m rest)
    obtain s0 g0 where m: "m = (s0, g0)" by (cases m)
    from 3(3) Cons m consider "w = take (length (c # s) - length s0) (c # s)" "g = g0"
      | "(w, g) \<in> set (scan i r (length (c # s) - length s0 - 1) s)"
      by auto
    then show ?thesis
    proof cases
      case 1
      with Cons m have "c # s = [] @ (c # s) \<and> rmatch i r (c # s, Map.empty) = (s0, g) # rest \<and>
        w = take (length (c # s) - length s0) (c # s)" by simp
      then show ?thesis by blast
    next
      case 2
      from 3(2) [OF Cons m [symmetric] 2] obtain pre t s' rest' where "s = pre @ t"
        "rmatch i r (t, Map.empty) = (s', g) # rest'" "w = take (length t - length s') t" by auto
      then have "c # s = (c # pre) @ t \<and> rmatch i r (t, Map.empty) = (s', g) # rest' \<and>
        w = take (length t - length s') t" by simp
      then show ?thesis by blast
    qed
  qed
qed

lemma scan_complete:
  "rmatch i r (t, Map.empty) \<noteq> [] \<Longrightarrow> scan i r 0 (pre @ t) \<noteq> []"
proof (induction pre)
  case Nil
  then show ?case by (cases t) (auto split: list.splits)
next
  case (Cons c pre)
  then show ?case by (auto split: list.splits)
qed

lemma fund_name_form_iff:
  "fund_name_form x \<longleftrightarrow>
     (\<exists>c w sp suf. x = c # w @ sp # suf \<and> is_upper c \<and> w \<noteq> [] \<and> list_all is_letter w \<and>
        is_space sp \<and> suf \<in> set suffix_words)"
  (is "?L \<longleftrightarrow> ?R")
proof
  assume ?L
  then obtain suf where suf: "suf \<in> set suffix_words" "ends_in x suf"
    by (auto simp: fund_name_form_def list_ex_iff)
  define b where "b = take (length x - length suf) x"
  from suf(2) have l: "length suf < length x" and d: "drop (length x - length suf) x = suf"
    and sp: "is_space (last b)" and cw: "capitalized_word (butlast b)"
    by (simp_all add: ends_in_def b_def)
  have x: "x = b @ suf" using d unfolding b_def by (metis append_take_drop_id)
  from l have "length b > 0" by (simp add: b_def)
  then have "b \<noteq> []" by auto
  then have b: "b = butlast b @ [last b]" by simp
  from cw obtain c w where cw': "butlast b = c # w" "is_upper c" "w \<noteq> []" "list_all is_letter w"
    by (auto simp: capitalized_word_def split: list.splits)
  have "x = c # w @ last b # suf" using x b cw'(1) by (metis append_Cons append_Nil append_assoc)
  with cw' sp suf(1) show ?R by blast
next
  assume ?R
  then obtain c w sp suf where h: "x = c # w @ sp # suf" "is_upper c" "w \<noteq> []"
    "list_all is_letter w" "is_space sp" "suf \<in> set suffix_words" by blast
  have "x = (c # w @ [sp]) @ suf" using h(1) by simp
  then have t: "take (length x - length suf) x = c # w @ [sp]"
    and d: "drop (length x - length suf) x = suf" by simp_all
  have "ends_in x suf"
    unfolding ends_in_def t d using h by (simp add: capitalized_word_def butlast_append)
  with h(6) show ?L by (auto simp: fund_name_form_def list_ex_iff)
qed

lemma findall_fund_sound:
  assumes "x \<in> set (findall False fund_pattern text)"
  shows "fund_name_form x \<and> py_in x text"
proof -
  from assms obtain w g where wg: "(w, g) \<in> set (scan False fund_pattern 0 text)" "x = group g 1"
    by (auto simp: findall_def)
  from scan_sound [OF wg(1)] obtain pre t s' rest where
    p: "text = pre @ t" "rmatch False fund_pattern (t, Map.empty) = (s', g) # rest" by blast
  then have "(s', g) \<in> set (rmatch False fund_pattern (t, Map.empty))" by simp
  then obtain c l sp suf where f: "t = c # l @ sp # suf @ s'" "is_upper c" "l \<noteq> []"
    "list_all is_letter l" "is_space sp" "suf \<in> set suffix_words"
    "g = Map.empty(1 \<mapsto> c # l @ sp # suf)"
    unfolding fund_match_iff by blast
  from f(7) wg(2) have x: "x = c # l @ sp # suf" by (simp add: group_def)
  with f have "fund_name_form x" unfolding fund_name_form_iff by blast
  moreover have "text = pre @ x @ s'" using p(1) f(1) x by simp
  then have "py_in x text" unfolding py_in_iff by blast
  ultimately show ?thesis by simp
qed

lemma findall_fund_complete:
  assumes "fund_name_form x" and "py_in x text"
  shows "findall False fund_pattern text \<noteq> []"
proof -
  from assms(2) obtain pre post where t: "text = pre @ (x @ post)" unfolding py_in_iff by auto
  from assms(1) obtain c l sp suf where f: "x = c # l @ sp # suf" "is_upper c" "l \<noteq> []"
    "list_all is_letter l" "is_space sp" "suf \<in> set suffix_words"
    unfolding fund_name_form_iff by blast
  then have "x @ post = c # l @ sp # suf @ post" by simp
  with f have "(post, Map.empty(1 \<mapsto> c # l @ sp # suf)) \<in> set (rmatch False fund_pattern (x @ post, Map.empty))"
    unfolding fund_match_iff by blast
  then have "rmatch False fund_pattern (x @ post, Map.empty) \<noteq> []" by auto
  then have "scan False fund_pattern 0 text \<noteq> []" unfolding t by (rule scan_complete)
  then show ?thesis by (simp add: findall_def)
qed

lemma map_fund_entries:
  "length js = length fs \<Longrightarrow>
     map (fund \<circ> (\<lambda>(j, x). \<lparr>fund = x, ticket_size = a, fund_size = b, sectors = c,
        geographies = d, stage = e, source = u, timestamp = f j\<rparr>)) (zip js fs) = fs"
  by (induction js fs rule: list_induct2) simp_all

lemma map_fund_extract:
  "\<exists>rs. extract_data_from_text h now text u = Inr rs \<and>
     map fund rs = list_of_set h (findall False fund_pattern text)"
  unfolding extract_eq by (simp add: map_fund_entries)

lemma space_not_letter: "is_space c \<Longrightarrow> \<not> is_letter c"
  by (auto simp: is_space_def is_letter_def in_range_def code_def)

lemma run_unique:
  "list_all P w \<Longrightarrow> list_all P w' \<Longrightarrow> \<not> P a \<Longrightarrow> \<not> P b \<Longrightarrow> w @ a # r = w' @ b # r' \<Longrightarrow>
     w = w' \<and> a = b \<and> r = r'"
proof (induction w arbitrary: w')
  case Nil
  then show ?case by (cases w') auto
next
  case (Cons x w)
  then show ?case by (cases w') auto
qed

lemma suffix_prefix_free:
  "suf \<in> set suffix_words \<Longrightarrow> suf' \<in> set suffix_words \<Longrightarrow> suf @ p = suf' @ q \<Longrightarrow> suf = suf'"
  by (auto simp: suffix_words_def)

lemma fund_shape_unique:
  assumes "fund_name_form x" and "fund_name_form y" and "x @ p = y @ q"
  shows "x = y \<and> p = q"
proof -
  from assms(1) obtain c w sp suf where x: "x = c # w @ sp # suf" "list_all is_letter w"
    "is_space sp" "suf \<in> set suffix_words" unfolding fund_name_form_iff by blast
  from assms(2) obtain c' w' sp' suf' where y: "y = c' # w' @ sp' # suf'" "list_all is_letter w'"
    "is_space sp'" "suf' \<in> set suffix_words" unfolding fund_name_form_iff by blast
  from assms(3) x(1) y(1) have c: "c = c'" and e: "w @ sp # (suf @ p) = w' @ sp' # (suf' @ q)"
    by simp_all
  from run_unique [OF x(2) y(2) space_not_letter [OF x(3)] space_not_letter [OF y(3)] e]
  have u: "w = w'" "sp = sp'" "suf @ p = suf' @ q" by simp_all
  from suffix_prefix_free [OF x(4) y(4) u(3)] have s: "suf = suf'" .
  with u(3) have "p = q" by simp
  with x(1) y(1) c u s show ?thesis by simp
qed

lemma fund_at_iff: "fund_at s \<longleftrightarrow> (\<exists>y r. s = y @ r \<and> fund_name_form y)"
proof
  assume "fund_at s"
  then obtain n where "fund_name_form (take n s)"
    unfolding fund_at_def list_ex_iff by blast
  moreover have "s = take n s @ drop n s" by simp
  ultimately show "\<exists>y r. s = y @ r \<and> fund_name_form y" by blast
next
  assume "\<exists>y r. s = y @ r \<and> fund_name_form y"
  then obtain y r where s: "s = y @ r" and f: "fund_name_form y" by blast
  then have "length y \<in> set [0..<Suc (length s)]" and "fund_name_form (take (length y) s)"
    by simp_all
  then show "fund_at s" unfolding fund_at_def list_ex_iff by blast
qed

lemma rmatch_fund_none:
  assumes "\<not> fund_at s"
  shows "rmatch False fund_pattern (s, g) = []"
proof (rule ccontr)
  assume "rmatch False fund_pattern (s, g) \<noteq> []"
  then obtain m where "m \<in> set (rmatch False fund_pattern (s, g))"
    by (cases "rmatch False fund_pattern (s, g)") auto
  moreover obtain s' g' where "m = (s', g')" by (cases m)
  ultimately have "(s', g') \<in> set (rmatch False fund_pattern (s, g))" by simp
  then obtain c w sp suf where "s = c # w @ sp # suf @ s'" "is_upper c" "w \<noteq> []"
    "list_all is_letter w" "is_space sp" "suf \<in> set suffix_words"
    unfolding fund_match_iff by blast
  then have "s = (c # w @ sp # suf) @ s'" and "fund_name_form (c # w @ sp # suf)"
    unfolding fund_name_form_iff by auto
  then have "fund_at s" unfolding fund_at_iff by blast
  with assms show False by simp
qed

lemma rmatch_fund_hd:
  assumes "fund_name_form x"
  shows "\<exists>rest. rmatch False fund_pattern (x @ post, Map.empty) = (post, [1 \<mapsto> x]) # rest"
proof -
  from assms obtain c w sp suf where x: "x = c # w @ sp # suf" "is_upper c" "w \<noteq> []"
    "list_all is_letter w" "is_space sp" "suf \<in> set suffix_words"
    unfolding fund_name_form_iff by blast
  then have "x @ post = c # w @ sp # suf @ post" by simp
  with x have "(post, [1 \<mapsto> x]) \<in> set (rmatch False fund_pattern (x @ post, Map.empty))"
    unfolding fund_match_iff by blast
  then obtain m rest where r: "rmatch False fund_pattern (x @ post, Map.empty) = m # rest"
    by (cases "rmatch False fund_pattern (x @ post, Map.empty)") auto
  obtain s' g' where m: "m = (s', g')" by (cases m)
  from r m have "(s', g') \<in> set (rmatch False fund_pattern (x @ post, Map.empty))" by simp
  then obtain c' w' sp' suf' where y: "x @ post = c' # w' @ sp' # suf' @ s'" "is_upper c'"
    "w' \<noteq> []" "list_all is_letter w'" "is_space sp'" "suf' \<in> set suffix_words"
    "g' = [1 \<mapsto> c' # w' @ sp' # suf']"
    unfolding fund_match_iff by blast
  then have f: "fund_name_form (c' # w' @ sp' # suf')" unfolding fund_name_form_iff by blast
  from y(1) have "x @ post = (c' # w' @ sp' # suf') @ s'" by simp
  from fund_shape_unique [OF assms f this] have "x = c' # w' @ sp' # suf'" "post = s'" by simp_all
  with y(7) m r show ?thesis by simp
qed

lemma no_fund_before_iff:
  "no_fund_before pre t \<longleftrightarrow> (\<forall>n<length pre. \<not> fund_at (drop n pre @ t))"
  by (auto simp: no_fund_before_def list_all_iff)

lemma no_fund_before_Cons:
  "no_fund_before (c # pre) t \<longleftrightarrow> \<not> fund_at (c # pre @ t) \<and> no_fund_before pre t"
  unfolding no_fund_before_iff by (auto simp: less_Suc_eq_0_disj)

lemma scan_skip:
  "no_fund_before pre t \<Longrightarrow> scan False fund_pattern 0 (pre @ t) = scan False fund_pattern 0 t"
proof (induction pre)
  case Nil
  then show ?case by simp
next
  case (Cons c pre)
  then have "rmatch False fund_pattern (c # pre @ t, Map.empty) = []" and "no_fund_before pre t"
    unfolding no_fund_before_Cons by (simp_all add: rmatch_fund_none)
  with Cons.IH show ?case by simp
qed

lemma scan_counter: "scan i r (length a) (a @ b) = scan i r 0 b"
  by (induction a) simp_all

lemma findall_step:
  assumes "fund_name_form x" and "no_fund_before pre (x @ post)"
  shows "findall False fund_pattern (pre @ x @ post) = x # findall False fund_pattern post"
proof -
  from assms(1) obtain c xs where x: "x = c # xs" unfolding fund_name_form_iff by blast
  from rmatch_fund_hd [OF assms(1)] obtain rest where
    r: "rmatch False fund_pattern (c # xs @ post, Map.empty) = (post, [1 \<mapsto> x]) # rest"
    unfolding x by auto
  have 1: "scan False fund_pattern 0 (c # xs @ post) =
      (take (length (c # xs @ post) - length post) (c # xs @ post), [1 \<mapsto> x])
        # scan False fund_pattern (length (c # xs @ post) - length post - 1) (xs @ post)"
    by (simp only: scan.simps r list.case prod.case)
  have 2: "take (length (c # xs @ post) - length post) (c # xs @ post) = x"
    unfolding x by simp
  have 3: "length (c # xs @ post) - length post - 1 = length xs" by simp
  have 4: "scan False fund_pattern 0 (c # xs @ post) =
      (x, [1 \<mapsto> x]) # scan False fund_pattern 0 post"
    unfolding 1 2 3 scan_counter by (rule refl)
  have 5: "x @ post = c # xs @ post" unfolding x by simp
  have 6: "scan False fund_pattern 0 (pre @ x @ post) =
      (x, [1 \<mapsto> x]) # scan False fund_pattern 0 post"
    by (simp only: scan_skip [OF assms(2)]) (simp only: 5 4)
  show ?thesis
    unfolding findall_def 6 by (simp add: group_def)
qed

text \<open>
  Claim C4, as amended. The fund names of the records are found by a scan of the text
  from left to right for occurrences of the fund pattern that do not overlap. Each name
  is a substring of the text made of a capital letter \<open>A\<close> to \<open>Z\<close>, one or more letters
  \<open>a\<close> to \<open>z\<close> or \<open>A\<close> to \<open>Z\<close>, one whitespace character and a word of the suffix
  vocabulary. A text without such a substring gives no record. Otherwise the leftmost
  occurrence \<open>x\<close> of such a substring is a name, and the other names are those of the
  text after that occurrence: the names of \<open>pre @ x @ post\<close> are \<open>x\<close> and the names of
  \<open>post\<close>. No name occurs twice among the records.
\<close>

theorem fund_names_are_pattern_matches:
  "\<exists>rs. extract_data_from_text h now text u = Inr rs \<and>
     distinct (map fund rs) \<and>
     set (map fund rs) = set (findall False fund_pattern text) \<and>
     (\<forall>x \<in> set (map fund rs). fund_name_form x \<and> py_in x text) \<and>
     (rs \<noteq> [] \<longleftrightarrow> (\<exists>x. fund_name_form x \<and> py_in x text)) \<and>
     (\<forall>pre x post. text = pre @ x @ post \<and> fund_name_form x \<and> no_fund_before pre (x @ post) \<longrightarrow>
        (\<exists>rs'. extract_data_from_text h now post u = Inr rs' \<and>
           set (map fund rs) = insert x (set (map fund rs'))))"
proof -
  from map_fund_extract [of h now "text" u] obtain rs where
    rs: "extract_data_from_text h now text u = Inr rs"
      "map fund rs = list_of_set h (findall False fund_pattern text)" by blast
  have d: "distinct (map fund rs)" and s: "set (map fund rs) = set (findall False fund_pattern text)"
    unfolding rs(2) by (simp_all add: list_of_set_props)
  have a: "\<forall>x \<in> set (map fund rs). fund_name_form x \<and> py_in x text"
    unfolding s using findall_fund_sound by blast
  have "rs \<noteq> [] \<longleftrightarrow> set (map fund rs) \<noteq> {}" by simp
  also have "\<dots> \<longleftrightarrow> findall False fund_pattern text \<noteq> []" unfolding s by simp
  also have "\<dots> \<longleftrightarrow> (\<exists>x. fund_name_form x \<and> py_in x text)"
  proof
    assume "findall False fund_pattern text \<noteq> []"
    then obtain x where "x \<in> set (findall False fund_pattern text)"
      by (cases "findall False fund_pattern text") auto
    then show "\<exists>x. fund_name_form x \<and> py_in x text" using findall_fund_sound by blast
  next
    assume "\<exists>x. fund_name_form x \<and> py_in x text"
    then show "findall False fund_pattern text \<noteq> []" using findall_fund_complete by blast
  qed
  finally have e: "rs \<noteq> [] \<longleftrightarrow> (\<exists>x. fund_name_form x \<and> py_in x text)" .
  have l: "\<forall>pre x post. text = pre @ x @ post \<and> fund_name_form x \<and> no_fund_before pre (x @ post) \<longrightarrow>
        (\<exists>rs'. extract_data_from_text h now post u = Inr rs' \<and>
           set (map fund rs) = insert x (set (map fund rs')))"
  proof (intro allI impI)
    fix pre x post
    assume h: "text = pre @ x @ post \<and> fund_name_form x \<and> no_fund_before pre (x @ post)"
    from map_fund_extract [of h now post u] obtain rs' where
      rs': "extract_data_from_text h now post u = Inr rs'"
        "map fund rs' = list_of_set h (findall False fund_pattern post)" by blast
    have "set (map fund rs') = set (findall False fund_pattern post)"
      unfolding rs'(2) by (simp add: list_of_set_props)
    moreover from h have "findall False fund_pattern text = x # findall False fund_pattern post"
      using findall_step by blast
    ultimately have "set (map fund rs) = insert x (set (map fund rs'))"
      unfolding s by simp
    with rs'(1) show "\<exists>rs'. extract_data_from_text h now post u = Inr rs' \<and>
           set (map fund rs) = insert x (set (map fund rs'))" by blast
  qed
  from rs(1) d s a e l show ?thesis by blast
qed

lemma example_both:
  "extract_data_from_text (\<lambda>_. 0) (\<lambda>_. ''2026-01-01 00:00:00'')
     ''Both Accel Partners and Sequoia Capital met Accel Partners'' ''u'' =
   Inr [\<lparr>fund = ''Sequoia Capital'', ticket_size = None, fund_size = None, sectors = [],
          geographies = [], stage = [], source = ''u'', timestamp = ''2026-01-01 00:00:00''\<rparr>,
        \<lparr>fund = ''Accel Partners'', ticket_size = None, fund_size = None, sectors = [],
          geographies = [], stage = [], source = ''u'', timestamp = ''2026-01-01 00:00:00''\<rparr>]"
  by code_simp

lemma example_both_leftmost:
  "fund_name_form ''Accel Partners''"
  "no_fund_before ''Both '' (''Accel Partners'' @ '' and Sequoia Capital met Accel Partners'')"
  by code_simp+

theorem fund_names_are_pattern_matches_witness:
  "fund_name_form ''Accel Partners'' \<and>
   no_fund_before ''Both '' (''Accel Partners'' @ '' and Sequoia Capital met Accel Partners'') \<and>
   (\<exists>rs rs'.
      extract_data_from_text (\<lambda>_. 0) (\<lambda>_. ''2026-01-01 00:00:00'')
        ''Both Accel Partners and Sequoia Capital met Accel Partners'' ''u'' = Inr rs \<and>
      extract_data_from_text (\<lambda>_. 0) (\<lambda>_. ''2026-01-01 00:00:00'')
        '' and Sequoia Capital met Accel Partners'' ''u'' = Inr rs' \<and>
      length rs = 2 \<and> distinct (map fund rs) \<and>
      fund_name_form (fund (hd rs)) \<and>
      set (map fund rs) = insert ''Accel Partners'' (set (map fund rs')))"
proof -
  have t: "''Both Accel Partners and Sequoia Capital met Accel Partners'' =
      ''Both '' @ ''Accel Partners'' @ '' and Sequoia Capital met Accel Partners''" by simp
  from fund_names_are_pattern_matches [of "\<lambda>_. 0" "\<lambda>_. ''2026-01-01 00:00:00''"
      "''Both Accel Partners and Sequoia Capital met Accel Partners''" "''u''"]
  obtain rs where rs:
    "extract_data_from_text (\<lambda>_. 0) (\<lambda>_. ''2026-01-01 00:00:00'')
        ''Both Accel Partners and Sequoia Capital met Accel Partners'' ''u'' = Inr rs"
    "distinct (map fund rs)"
    "\<forall>x \<in> set (map fund rs). fund_name_form x \<and>
        py_in x ''Both Accel Partners and Sequoia Capital met Accel Partners''"
    "\<forall>pre x post. ''Both Accel Partners and Sequoia Capital met Accel Partners'' = pre @ x @ post \<and>
        fund_name_form x \<and> no_fund_before pre (x @ post) \<longrightarrow>
        (\<exists>rs'. extract_data_from_text (\<lambda>_. 0) (\<lambda>_. ''2026-01-01 00:00:00'') post ''u'' = Inr rs' \<and>
           set (map fund rs) = insert x (set (map fund rs')))"
    by blast
  from rs(4) t example_both_leftmost obtain rs' where rs':
    "extract_data_from_text (\<lambda>_. 0) (\<lambda>_. ''2026-01-01 00:00:00'')
        '' and Sequoia Capital met Accel Partners'' ''u'' = Inr rs'"
    "set (map fund rs) = insert ''Accel Partners'' (set (map fund rs'))"
    by blast
  from rs(1) have l: "length rs = 2" unfolding example_both by auto
  then have "hd rs \<in> set rs" by (cases rs) auto
  with rs(3) have f: "fund_name_form (fund (hd rs))" by simp
  from example_both_leftmost rs(1,2) rs' l f show ?thesis by blast
qed

text \<open>
  Claim C4 as stated fails: in \<open>Capital Partners Group\<close> the capitalized word
  \<open>Partners\<close> followed by the suffix word \<open>Group\<close> is not recognized, because the
  scan goes on after the match \<open>Capital Partners\<close>.
\<close>

theorem partners_group_not_recognized:
  "fund_name_form ''Partners Group'' \<and> py_in ''Partners Group'' ''Capital Partners Group'' \<and>
   extract_data_from_text (\<lambda>_. 0) (\<lambda>_. ''2026-01-01 00:00:00'') ''Capital Partners Group'' ''u'' =
     Inr [\<lparr>fund = ''Capital Partners'', ticket_size = None, fund_size = None, sectors = [],
            geographies = [], stage = [], source = ''u'', timestamp = ''2026-01-01 00:00:00''\<rparr>]"
  by code_simp

section \<open>Properties of the scraper\<close>

lemma fetch_loop_eq:
  "fetch_loop get parse urls k articles warnings =
     (articles @ concat (map (\<lambda>(j, u). case fetch_one get parse j u of Inr a \<Rightarrow> [a] | Inl e \<Rightarrow> [])
                   (zip [k..<k + length urls] urls)),
      warnings @ concat (map (\<lambda>(j, u). case fetch_one get parse j u of Inr a \<Rightarrow> []
                     | Inl e \<Rightarrow> [''Failed to fetch '' @ u @ '': '' @ message e])
                   (zip [k..<k + length urls] urls)))"
proof (induction urls arbitrary: k articles warnings)
  case Nil
  then show ?case by simp
next
  case (Cons u urls)
  have "[k..<k + length (u # urls)] = k # [Suc k..<Suc k + length urls]"
    by (subst upt_rec) simp
  then show ?case
    using Cons.IH [of "Suc k"] by (simp split: sum.splits)
qed

lemma outcome_article:
  "(case fetch_one get parse j u of Inr a \<Rightarrow> [a] | Inl e \<Rightarrow> []) =
   (case get j u of
      Inl e \<Rightarrow> []
    | Inr content \<Rightarrow> (case parse content of Inl e \<Rightarrow> [] | Inr ps \<Rightarrow> [(u, join '' '' ps)]))"
  by (simp add: fetch_one_def split: sum.splits)

lemma outcome_warning:
  "(case fetch_one get parse j u of Inr a \<Rightarrow> []
      | Inl e \<Rightarrow> [''Failed to fetch '' @ u @ '': '' @ message e]) =
   (case get j u of
      Inl e \<Rightarrow> [''Failed to fetch '' @ u @ '': '' @ message e]
    | Inr content \<Rightarrow>
        (case parse content of
           Inl e \<Rightarrow> [''Failed to fetch '' @ u @ '': '' @ message e]
         | Inr ps \<Rightarrow> []))"
  by (simp add: fetch_one_def split: sum.splits)

lemma length_outcomes:
  "length (concat (map (\<lambda>(j, u). case get j u of
      Inl e \<Rightarrow> []
    | Inr content \<Rightarrow> (case parse content of Inl e \<Rightarrow> [] | Inr ps \<Rightarrow> [(u, join '' '' ps)])) ps)) +
   length (concat (map (\<lambda>(j, u). case get j u of
      Inl e \<Rightarrow> [''Failed to fetch '' @ u @ '': '' @ message e]
    | Inr content \<Rightarrow>
        (case parse content of
           Inl e \<Rightarrow> [''Failed to fetch '' @ u @ '': '' @ message e]
         | Inr ps \<Rightarrow> [])) ps)) = length ps"
  by (induction ps) (auto split: sum.splits)

text \<open>
  Claim C9. The fetcher goes through the URLs in order and returns for every list of
  URLs. A URL whose request fails or whose response fails to parse adds a warning with
  the message of the exception and no article; every other URL adds its article, the
  paragraphs joined with single spaces. So the articles are those of the successful
  URLs in order, the warnings those of the failing ones, one or the other for each URL.
\<close>

theorem fetch_skips_failures:
  "fst (fetch_articles get parse urls) =
     concat (map (\<lambda>(j, u). case get j u of
         Inl e \<Rightarrow> []
       | Inr content \<Rightarrow> (case parse content of Inl e \<Rightarrow> [] | Inr ps \<Rightarrow> [(u, join '' '' ps)]))
       (zip [0..<length urls] urls)) \<and>
   snd (fetch_articles get parse urls) =
     concat (map (\<lambda>(j, u). case get j u of
         Inl e \<Rightarrow> [''Failed to fetch '' @ u @ '': '' @ message e]
       | Inr content \<Rightarrow>
           (case parse content of
              Inl e \<Rightarrow> [''Failed to fetch '' @ u @ '': '' @ message e]
            | Inr ps \<Rightarrow> []))
       (zip [0..<length urls] urls)) \<and>
   length (fst (fetch_articles get parse urls)) + length (snd (fetch_articles get parse urls))
     = length urls"
proof -
  have e: "fetch_articles get parse urls =
     (concat (map (\<lambda>(j, u). case get j u of
         Inl e \<Rightarrow> []
       | Inr content \<Rightarrow> (case parse content of Inl e \<Rightarrow> [] | Inr ps \<Rightarrow> [(u, join '' '' ps)]))
       (zip [0..<length urls] urls)),
      concat (map (\<lambda>(j, u). case get j u of
         Inl e \<Rightarrow> [''Failed to fetch '' @ u @ '': '' @ message e]
       | Inr content \<Rightarrow>
           (case parse content of
              Inl e \<Rightarrow> [''Failed to fetch '' @ u @ '': '' @ message e]
            | Inr ps \<Rightarrow> []))
       (zip [0..<length urls] urls)))"
    unfolding fetch_articles_def fetch_loop_eq outcome_article outcome_warning by simp
  show ?thesis
    unfolding e fst_conv snd_conv
    using length_outcomes [where get = get and parse = parse and ps = "zip [0..<length urls] urls"]
    by simp
qed

theorem fetch_skips_failures_witness:
  "fetch_articles (\<lambda>k u. if u = ''down'' then Inl (Exception ''timeout'') else Inr u)
      (\<lambda>c. if c = ''broken'' then Inl (Exception ''bad markup'') else Inr [''x'', ''y''])
      [''down'', ''good'', ''broken'', ''fine''] =
     ([(''good'', ''x y''), (''fine'', ''x y'')],
      [''Failed to fetch down: timeout'', ''Failed to fetch broken: bad markup''])"
  using fetch_skips_failures [of
      "\<lambda>k u. if u = ''down'' then Inl (Exception ''timeout'') else Inr u"
      "\<lambda>c. if c = ''broken'' then Inl (Exception ''bad markup'') else Inr [''x'', ''y'']"
      "[''down'', ''good'', ''broken'', ''fine'']"]
  by (simp add: prod_eq_iff upt_rec)

section \<open>Properties of the database\<close>




lemma insert_at_limit:
  "max_rowid \<le> high_water t \<Longrightarrow>
   insert_data_to_db (e # es) (Some t) = Inl (OperationalError ''database or disk is full'')"
  by (simp add: insert_row_def)







section \<open>Properties of the display\<close>

lemma split_on_plain: "c \<notin> set v \<Longrightarrow> split_on c v = [v]"
  by (induction v) auto

lemma split_on_append: "c \<notin> set v \<Longrightarrow> split_on c (v @ c # rest) = v # split_on c rest"
  by (induction v) auto

lemma split_join:
  "vs \<noteq> [] \<Longrightarrow> \<forall>v \<in> set vs. c \<notin> set v \<Longrightarrow> split_on c (join [c] vs) = vs"
proof (induction "[c]" vs rule: join.induct)
  case 1
  then show ?case by simp
next
  case (2 x)
  then show ?case by (simp add: split_on_plain)
next
  case (3 x y ys)
  then show ?case by (simp add: split_on_append)
qed

lemma list_all_join:
  "P c \<Longrightarrow> list_all P (join [c] vs) \<longleftrightarrow> list_all (list_all P) vs"
  by (induction "[c]" vs rule: join.induct) auto

lemma bar_not_special: "CHR ''|'' \<notin> set special_chars"
  by (simp add: special_chars_def)

lemma select_rows_plain:
  "list_all (\<lambda>c. c \<notin> set special_chars) pat \<Longrightarrow>
   select_rows re_search pat col df =
     Inr (filter (\<lambda>r. list_ex (\<lambda>a. py_in a (col (data r))) (split_on CHR ''|'' pat)) df)"
  by (induction df) (simp_all add: str_contains_def)

lemma select_rows_filter:
  assumes "plain_values vs" and "vs \<noteq> []"
  shows "select_rows re_search (join ''|'' vs) col df =
     Inr (filter (\<lambda>r. list_ex (\<lambda>v. py_in v (col (data r))) vs) df)"
proof -
  from assms(1) have a: "list_all (list_all (\<lambda>c. c \<notin> set special_chars)) vs"
    and b: "\<forall>v \<in> set vs. CHR ''|'' \<notin> set v"
    by (auto simp: plain_values_def list_all_iff)
  from a have "list_all (\<lambda>c. c \<notin> set special_chars) (join ''|'' vs)"
    using list_all_join [of "\<lambda>c. c \<notin> set special_chars" "CHR ''|''" vs] bar_not_special
    by simp
  moreover have "split_on CHR ''|'' (join ''|'' vs) = vs"
    using split_join [OF assms(2) b] by simp
  ultimately show ?thesis by (simp add: select_rows_plain)
qed

text \<open>
  Claim C8. Filtering and display leave the store as it was, whatever the store and the
  selected filter values are. For plain filter values the rows shown are the rows of
  the table one of whose selected sectors is a substring of the sectors field, and
  likewise for the geographies.
\<close>

theorem filtering_leaves_store:
  "snd (show_investors re_search db sector_filter geo_filter) = db \<and>
   (\<forall>t. db = Some t \<and> plain_values sector_filter \<and> plain_values geo_filter \<longrightarrow>
      fst (show_investors re_search db sector_filter geo_filter) =
        Inr (map (\<lambda>r. (data r)\<lparr>source := ''[Link]('' @ source (data r) @ '')''\<rparr>)
          (filter (\<lambda>r. (sector_filter = [] \<or> list_ex (\<lambda>v. py_in v (sectors (data r))) sector_filter) \<and>
                       (geo_filter = [] \<or> list_ex (\<lambda>v. py_in v (geographies (data r))) geo_filter))
             (rows t))))"
proof (intro conjI allI impI)
  show "snd (show_investors re_search db sector_filter geo_filter) = db"
    by (simp add: show_investors_def split: option.splits sum.splits)
next
  fix t
  assume h: "db = Some t \<and> plain_values sector_filter \<and> plain_values geo_filter"
  have s: "(if sector_filter \<noteq> []
            then select_rows re_search (join ''|'' sector_filter) sectors (rows t)
            else Inr (rows t)) =
     Inr (filter (\<lambda>r. sector_filter = [] \<or> list_ex (\<lambda>v. py_in v (sectors (data r))) sector_filter) (rows t))"
    using h by (cases "sector_filter = []") (simp_all add: select_rows_filter)
  have g: "\<And>df. (if geo_filter \<noteq> []
            then select_rows re_search (join ''|'' geo_filter) geographies df
            else Inr df) =
     Inr (filter (\<lambda>r. geo_filter = [] \<or> list_ex (\<lambda>v. py_in v (geographies (data r))) geo_filter) df)"
    using h by (cases "geo_filter = []") (simp_all add: select_rows_filter)
  show "fst (show_investors re_search db sector_filter geo_filter) =
        Inr (map (\<lambda>r. (data r)\<lparr>source := ''[Link]('' @ source (data r) @ '')''\<rparr>)
          (filter (\<lambda>r. (sector_filter = [] \<or> list_ex (\<lambda>v. py_in v (sectors (data r))) sector_filter) \<and>
                       (geo_filter = [] \<or> list_ex (\<lambda>v. py_in v (geographies (data r))) geo_filter))
             (rows t)))"
  proof -
    have "show_investors re_search (Some t) sector_filter geo_filter =
        (Inr (map (\<lambda>r. (data r)\<lparr>source := ''[Link]('' @ source (data r) @ '')''\<rparr>)
          (filter (\<lambda>r. geo_filter = [] \<or> list_ex (\<lambda>v. py_in v (geographies (data r))) geo_filter)
            (filter (\<lambda>r. sector_filter = [] \<or> list_ex (\<lambda>v. py_in v (sectors (data r))) sector_filter)
             (rows t)))), Some t)"
      by (simp only: show_investors_def option.case s g sum.case)
    with h show ?thesis by (simp add: conj_commute)
  qed
qed

lemma example_filter_plain: "plain_values [''AI'']" "plain_values []"
  by (simp_all add: plain_values_def special_chars_def)

lemma example_filter_in:
  "py_in ''AI'' ''AI, crypto''" "\<not> py_in ''AI'' ''fintech''"
  by code_simp+

theorem filtering_leaves_store_witness:
  "show_investors (\<lambda>p v. Inr False)
     (Some \<lparr>rows = [\<lparr>row_id = 1, data = \<lparr>fund = ''Sequoia Capital'', ticket_size = None,
          fund_size = None, sectors = ''fintech'', geographies = ''India'', stage = ''seed'',
          source = ''v'', timestamp = ''t''\<rparr>\<rparr>,
        \<lparr>row_id = 2, data = \<lparr>fund = ''Accel Partners'', ticket_size = None,
          fund_size = None, sectors = ''AI, crypto'', geographies = [], stage = [],
          source = ''u'', timestamp = ''t''\<rparr>\<rparr>], seq = 2\<rparr>) [''AI''] [] =
   (Inr [\<lparr>fund = ''Accel Partners'', ticket_size = None,
          fund_size = None, sectors = ''AI, crypto'', geographies = [], stage = [],
          source = ''[Link](u)'', timestamp = ''t''\<rparr>],
    Some \<lparr>rows = [\<lparr>row_id = 1, data = \<lparr>fund = ''Sequoia Capital'', ticket_size = None,
          fund_size = None, sectors = ''fintech'', geographies = ''India'', stage = ''seed'',
          source = ''v'', timestamp = ''t''\<rparr>\<rparr>,
        \<lparr>row_id = 2, data = \<lparr>fund = ''Accel Partners'', ticket_size = None,
          fund_size = None, sectors = ''AI, crypto'', geographies = [], stage = [],
          source = ''u'', timestamp = ''t''\<rparr>\<rparr>], seq = 2\<rparr>)"
  using filtering_leaves_store [of "\<lambda>p v. Inr False"
     "Some \<lparr>rows = [\<lparr>row_id = 1, data = \<lparr>fund = ''Sequoia Capital'', ticket_size = None,
          fund_size = None, sectors = ''fintech'', geographies = ''India'', stage = ''seed'',
          source = ''v'', timestamp = ''t''\<rparr>\<rparr>,
        \<lparr>row_id = 2, data = \<lparr>fund = ''Accel Partners'', ticket_size = None,
          fund_size = None, sectors = ''AI, crypto'', geographies = [], stage = [],
          source = ''u'', timestamp = ''t''\<rparr>\<rparr>], seq = 2\<rparr>" "[''AI'']" "[]"]
    example_filter_plain example_filter_in
  by (simp add: prod_eq_iff del: py_in.simps)

end
